theory Spec2Isabelle
  imports Main "HOL-Library.AList"
begin

section \<open>PNG to WebP conversion policy of \<^verbatim>\<open>convert_png_to_webp.py\<close>\<close>

text \<open>
  The script has one function of interest, \<^verbatim>\<open>convert_png_to_webp(source_dir, quality,
  lossless)\<close>. It works on the file system and calls the Pillow image library. The model
  below makes both explicit:
  \<^item> the file system is an association list from paths to nodes, in directory listing
    order; the function takes it and returns the new one;
  \<^item> the image library's decoder and encoder are parameters (a record \<open>env\<close>); what the
    script itself asks of an image (its mode, \<^verbatim>\<open>getextrema()[3][0]\<close>,
    \<^verbatim>\<open>convert('RGB')\<close>) is modelled on a small image value;
  \<^item> every exception is a value of the type \<open>exn\<close>: the \<^verbatim>\<open>try ... except Exception\<close>
    of the loop body turns it into a counted failure, anything raised outside of it aborts
    the run (the result \<open>Inl\<close>, with the state reached when it was raised: what was
    written before stays written);
  \<^item> the operating system can refuse to look at a path (a name that is too long, a
    directory that may not be searched): \<^verbatim>\<open>Path.exists()\<close> and \<^verbatim>\<open>Path.is_dir()\<close>
    raise the error then, and the check of line 52 stands outside of the \<^verbatim>\<open>try\<close>;
  \<^item> the counters of the loop, the per-file lines it prints and the calls it makes to the
    file system and the image library are fields of a state record.
\<close>

subsection \<open>Paths\<close>

text \<open>A path is the list of its components; its name is the last one.\<close>

type_synonym path = "string list"

definition path_name :: "path \<Rightarrow> string" where
  "path_name p = (if p = [] then [] else last p)"

text \<open>
  \<^verbatim>\<open>PurePath.suffix\<close>: with \<open>i = name.rfind('.')\<close>, the suffix is \<open>name[i:]\<close> when
  \<open>0 < i < len(name) - 1\<close> and the empty string otherwise. Here \<open>t\<close> is what follows the
  last dot, so that \<open>i = len(name) - len(t) - 1\<close> when there is a dot.
\<close>

definition path_suffix :: "string \<Rightarrow> string" where
  "path_suffix nm =
     (let t = takeWhile (\<lambda>c. c \<noteq> CHR ''.'') (rev nm) in
      if length t = length nm then []
      else (let i = length nm - length t - 1 in
            if 0 < i \<and> i < length nm - 1 then drop i nm else []))"

datatype exn =
    ValueError
  | FileNotFoundError
  | IsADirectoryError
  | PermissionError
  | IndexError
  | TypeError
  | OSError string
  | CodecError string

text \<open>
  \<^verbatim>\<open>PurePath.with_suffix(suffix)\<close>, for a well-formed \<open>suffix\<close> such as \<^verbatim>\<open>'.webp'\<close>:
  a path with an empty name raises \<open>ValueError\<close>; otherwise the old suffix, when there is
  one, is cut off the name and the new one appended.
\<close>

definition with_suffix :: "path \<Rightarrow> string \<Rightarrow> exn + path" where
  "with_suffix p suffix =
     (let nm = path_name p in
      if nm = [] then Inl ValueError
      else (let old_suffix = path_suffix nm in
            Inr (butlast p @
              [if old_suffix = [] then nm @ suffix
               else take (length nm - length old_suffix) nm @ suffix])))"

subsection \<open>The file system\<close>

type_synonym bytes = "nat list"

datatype node = Dir | File bytes

type_synonym filesystem = "(path \<times> node) list"

text \<open>Whether there is a node at a path: the lookup alone, not a call of the script.\<close>

definition file_present :: "filesystem \<Rightarrow> path \<Rightarrow> bool" where
  "file_present fsys p = (map_of fsys p \<noteq> None)"

text \<open>
  \<^verbatim>\<open>fnmatch\<close> of a name against \<^verbatim>\<open>*.png\<close> (case-sensitive, and a leading dot is
  not special for \<^verbatim>\<open>Path.glob\<close>): the name ends with \<^verbatim>\<open>.png\<close>.
\<close>

definition matches_png :: "string \<Rightarrow> bool" where
  "matches_png nm = (4 \<le> length nm \<and> drop (length nm - 4) nm = ''.png'')"

text \<open>
  \<^verbatim>\<open>list(source_path.glob("*.png"))\<close>: the immediate children of the directory whose
  name matches, files and directories alike, in listing order. The file system of the
  model has no permissions: a directory that exists can be listed.
\<close>

definition glob_png :: "filesystem \<Rightarrow> path \<Rightarrow> path list" where
  "glob_png fsys d =
     filter (\<lambda>p. p \<noteq> [] \<and> butlast p = d \<and> matches_png (last p)) (map fst fsys)"

subsection \<open>Images\<close>

text \<open>
  A decoded image: its mode (\<^verbatim>\<open>'RGBA'\<close>, \<^verbatim>\<open>'RGB'\<close>, \<^verbatim>\<open>'LA'\<close>, \<^verbatim>\<open>'P'\<close>, ...)
  and the samples of each of its bands.
\<close>

record image =
  mode :: string
  bands :: "nat list list"

text \<open>
  The keyword arguments of \<^verbatim>\<open>img.save\<close>: a key that the script does not put into
  \<^verbatim>\<open>save_kwargs\<close> is \<open>None\<close>.
\<close>

record save_kwargs =
  kw_format :: string
  kw_lossless :: "bool option"
  kw_quality :: "int option"

subsection \<open>The environment: image library and operating system\<close>

text \<open>
  The image library as the script uses it: \<open>decode\<close> stands for \<^verbatim>\<open>Image.open\<close> and
  the loading of the pixel data, \<open>encode\<close> for the WebP encoder behind \<^verbatim>\<open>img.save\<close>,
  \<open>writable\<close> for whether the output file can be opened for writing. The operating
  system: \<open>stat_error\<close> gives, for a path, the error that looking at it raises, if any,
  other than the ones \<^verbatim>\<open>pathlib\<close> takes for "not there" (\<^verbatim>\<open>ENOENT\<close>, \<^verbatim>\<open>ENOTDIR\<close>,
  \<^verbatim>\<open>EBADF\<close>, \<^verbatim>\<open>ELOOP\<close>): \<^verbatim>\<open>ENAMETOOLONG\<close> for a name of more than 255
  bytes, \<^verbatim>\<open>EACCES\<close> below a directory that may not be searched.
\<close>

record env =
  decode :: "bytes \<Rightarrow> exn + image"
  encode :: "image \<Rightarrow> save_kwargs \<Rightarrow> exn + bytes"
  writable :: "path \<Rightarrow> bool"
  stat_error :: "path \<Rightarrow> exn option"

text \<open>
  \<^verbatim>\<open>Path.exists()\<close> and \<^verbatim>\<open>Path.is_dir()\<close>: both look at the path and raise again
  every error of the operating system that does not mean "not there".
\<close>

definition path_exists :: "env \<Rightarrow> filesystem \<Rightarrow> path \<Rightarrow> exn + bool" where
  "path_exists ev fsys p =
     (case stat_error ev p of
        Some e \<Rightarrow> Inl e
      | None \<Rightarrow> Inr (map_of fsys p \<noteq> None))"

definition is_dir :: "env \<Rightarrow> filesystem \<Rightarrow> path \<Rightarrow> exn + bool" where
  "is_dir ev fsys p =
     (case stat_error ev p of
        Some e \<Rightarrow> Inl e
      | None \<Rightarrow> Inr (map_of fsys p = Some Dir))"

definition image_open :: "env \<Rightarrow> filesystem \<Rightarrow> path \<Rightarrow> exn + image" where
  "image_open ev fsys p =
     (case map_of fsys p of
        None \<Rightarrow> Inl FileNotFoundError
      | Some Dir \<Rightarrow> Inl IsADirectoryError
      | Some (File c) \<Rightarrow> decode ev c)"

text \<open>
  \<^verbatim>\<open>getextrema()\<close> of an image of several bands: the pair (minimum, maximum) of each
  band, and \<open>None\<close> for a band without samples.
\<close>

fun band_extrema :: "nat list \<Rightarrow> (nat \<times> nat) option" where
  "band_extrema [] = None"
| "band_extrema (x # xs) = Some (fold min xs x, fold max xs x)"

definition getextrema :: "image \<Rightarrow> (nat \<times> nat) option list" where
  "getextrema img = map band_extrema (bands img)"

text \<open>\<^verbatim>\<open>img.getextrema()[3][0]\<close>, with the two subscripts that can raise.\<close>

definition alpha_min :: "image \<Rightarrow> exn + nat" where
  "alpha_min img =
     (let ex = getextrema img in
      if length ex \<le> 3 then Inl IndexError
      else (case ex ! 3 of None \<Rightarrow> Inl TypeError | Some (lo, hi) \<Rightarrow> Inr lo))"

text \<open>\<^verbatim>\<open>img.convert('RGB')\<close> of an RGBA image: the first three bands.\<close>

definition convert_rgb :: "image \<Rightarrow> image" where
  "convert_rgb img = img\<lparr>mode := ''RGB'', bands := take 3 (bands img)\<rparr>"

text \<open>
  \<^verbatim>\<open>img.save(webp_file, **save_kwargs)\<close>: the file is opened for writing, then encoded;
  when either fails nothing is left at the path (Pillow removes a file it created).
\<close>

definition save :: "env \<Rightarrow> filesystem \<Rightarrow> path \<Rightarrow> image \<Rightarrow> save_kwargs \<Rightarrow> exn + filesystem" where
  "save ev fsys p img kw =
     (if \<not> writable ev p then Inl PermissionError
      else (case encode ev img kw of
              Inl e \<Rightarrow> Inl e
            | Inr c \<Rightarrow> Inr (AList.update p (File c) fsys)))"

subsection \<open>The state of a run\<close>

datatype call =
    OpExists path
  | OpIsDir path
  | OpGlob path
  | OpOpen path
  | OpGetExtrema
  | OpConvert string
  | OpSave path image save_kwargs

text \<open>The three lines the loop prints for a file, with the file and what it names.\<close>

datatype outcome =
    Skipped path path
  | Converted path path
  | Failed path exn

record state =
  files :: filesystem
  calls :: "call list"
  outcomes :: "outcome list"
  converted_count :: nat
  skipped_count :: nat
  error_count :: nat

subsection \<open>The mode decision (lines 62 to 73)\<close>

text \<open>
  The result is the calls made on the image and either the exception raised or the image
  and keyword arguments that go to \<^verbatim>\<open>img.save\<close>.
\<close>

definition choose_save :: "image \<Rightarrow> int \<Rightarrow> bool \<Rightarrow> call list \<times> (exn + image \<times> save_kwargs)" where
  "choose_save img q lossless_opt =
     (if mode img = ''RGBA'' then
        (case alpha_min img of
           Inl e \<Rightarrow> ([OpGetExtrema], Inl e)
         | Inr a \<Rightarrow>
             if a < 255 then
               ([OpGetExtrema],
                Inr (img, \<lparr>kw_format = ''WEBP'', kw_lossless = Some lossless_opt,
                           kw_quality = (if \<not> lossless_opt then Some q else None)\<rparr>))
             else
               ([OpGetExtrema, OpConvert ''RGB''],
                Inr (convert_rgb img,
                     \<lparr>kw_format = ''WEBP'', kw_lossless = None, kw_quality = Some q\<rparr>)))
      else
        ([], Inr (img, \<lparr>kw_format = ''WEBP'', kw_lossless = None, kw_quality = Some q\<rparr>)))"

subsection \<open>The body of the \<^verbatim>\<open>try\<close> block (lines 57 to 76)\<close>

definition try_convert ::
  "env \<Rightarrow> int \<Rightarrow> bool \<Rightarrow> filesystem \<Rightarrow> path \<Rightarrow> path \<Rightarrow> call list \<times> (exn + filesystem)" where
  "try_convert ev q lossless_opt fsys png_file webp_file =
     (case image_open ev fsys png_file of
        Inl e \<Rightarrow> ([OpOpen png_file], Inl e)
      | Inr img \<Rightarrow>
          (case choose_save img q lossless_opt of
             (ops, Inl e) \<Rightarrow> (OpOpen png_file # ops, Inl e)
           | (ops, Inr (img', kw)) \<Rightarrow>
               (OpOpen png_file # ops @ [OpSave webp_file img' kw],
                save ev fsys webp_file img' kw)))"

subsection \<open>One iteration of the loop (lines 47 to 83)\<close>

text \<open>
  Lines 49 and 52 stand before the \<^verbatim>\<open>try\<close>: what they raise leaves the loop and the
  function. The result \<open>Inl\<close> carries the exception and the state at that moment.
\<close>

definition convert_one ::
  "env \<Rightarrow> int \<Rightarrow> bool \<Rightarrow> state \<Rightarrow> path \<Rightarrow> exn \<times> state + state" where
  "convert_one ev q lossless_opt s png_file =
     (case with_suffix png_file ''.webp'' of
        Inl e \<Rightarrow> Inl (e, s)
      | Inr webp_file \<Rightarrow>
          (case path_exists ev (files s) webp_file of
             Inl e \<Rightarrow> Inl (e, s\<lparr>calls := calls s @ [OpExists webp_file]\<rparr>)
           | Inr found \<Rightarrow>
               if found then
                 Inr (s\<lparr>calls := calls s @ [OpExists webp_file],
                        outcomes := outcomes s @ [Skipped png_file webp_file],
                        skipped_count := skipped_count s + 1\<rparr>)
               else
                 (case try_convert ev q lossless_opt (files s) png_file webp_file of
                    (ops, Inr fsys') \<Rightarrow>
                      Inr (s\<lparr>files := fsys',
                             calls := calls s @ OpExists webp_file # ops,
                             outcomes := outcomes s @ [Converted png_file webp_file],
                             converted_count := converted_count s + 1\<rparr>)
                  | (ops, Inl e) \<Rightarrow>
                      Inr (s\<lparr>calls := calls s @ OpExists webp_file # ops,
                             outcomes := outcomes s @ [Failed png_file e],
                             error_count := error_count s + 1\<rparr>))))"

fun convert_loop ::
  "env \<Rightarrow> int \<Rightarrow> bool \<Rightarrow> path list \<Rightarrow> state \<Rightarrow> exn \<times> state + state" where
  "convert_loop ev q lossless_opt [] s = Inr s"
| "convert_loop ev q lossless_opt (png_file # rest) s =
     (case convert_one ev q lossless_opt s png_file of
        Inl a \<Rightarrow> Inl a
      | Inr s' \<Rightarrow> convert_loop ev q lossless_opt rest s')"

subsection \<open>The whole function (lines 15 to 93)\<close>

text \<open>
  The function returns \<^verbatim>\<open>None\<close> on every path that returns; what it reports it prints.
  The report is the model of that: the two \<^verbatim>\<open>Error:\<close> lines, the line
  \<^verbatim>\<open>No PNG files found\<close>, or the summary block with its four numbers (total found,
  converted, skipped, errors). The result \<open>Inl\<close> is an exception that leaves the function.
\<close>

datatype report =
    ErrorNotExist
  | ErrorNotDir
  | NoPngFiles
  | Summary nat nat nat nat

definition convert_png_to_webp ::
  "env \<Rightarrow> filesystem \<Rightarrow> path \<Rightarrow> int \<Rightarrow> bool \<Rightarrow> exn \<times> state + report \<times> state" where
  "convert_png_to_webp ev fsys source_path q lossless_opt =
     (let s0 = \<lparr>files = fsys, calls = [OpExists source_path], outcomes = [],
                converted_count = 0, skipped_count = 0, error_count = 0\<rparr> in
      case path_exists ev fsys source_path of
        Inl e \<Rightarrow> Inl (e, s0)
      | Inr found \<Rightarrow>
          if \<not> found then Inr (ErrorNotExist, s0)
          else (let s1 = s0\<lparr>calls := calls s0 @ [OpIsDir source_path]\<rparr> in
            case is_dir ev fsys source_path of
              Inl e \<Rightarrow> Inl (e, s1)
            | Inr d \<Rightarrow>
                if \<not> d then Inr (ErrorNotDir, s1)
                else (let png_files = glob_png fsys source_path;
                          s2 = s1\<lparr>calls := calls s1 @ [OpGlob source_path]\<rparr> in
                  if png_files = [] then Inr (NoPngFiles, s2)
                  else (case convert_loop ev q lossless_opt png_files s2 of
                          Inl a \<Rightarrow> Inl a
                        | Inr s \<Rightarrow>
                            Inr (Summary (length png_files) (converted_count s)
                                   (skipped_count s) (error_count s), s)))))"

subsection \<open>Reading a run\<close>

text \<open>The file an outcome line is about, and the three kinds of lines.\<close>

fun outcome_file :: "outcome \<Rightarrow> path" where
  "outcome_file (Skipped p w) = p"
| "outcome_file (Converted p w) = p"
| "outcome_file (Failed p e) = p"

fun is_converted :: "outcome \<Rightarrow> bool" where
  "is_converted (Converted p w) = True"
| "is_converted _ = False"

fun is_skipped :: "outcome \<Rightarrow> bool" where
  "is_skipped (Skipped p w) = True"
| "is_skipped _ = False"

fun is_failed :: "outcome \<Rightarrow> bool" where
  "is_failed (Failed p e) = True"
| "is_failed _ = False"

text \<open>Whether the WebP counterpart of a PNG file exists in a file system.\<close>

definition webp_exists :: "filesystem \<Rightarrow> path \<Rightarrow> bool" where
  "webp_exists fsys p =
     (case with_suffix p ''.webp'' of Inl e \<Rightarrow> False | Inr w \<Rightarrow> file_present fsys w)"

text \<open>The state a loop or a run ends in, whether it returned or raised.\<close>

definition loop_state :: "exn \<times> state + state \<Rightarrow> state" where
  "loop_state r = (case r of Inl (e, s) \<Rightarrow> s | Inr s \<Rightarrow> s)"

definition run_state :: "exn \<times> state + report \<times> state \<Rightarrow> state" where
  "run_state r = (case r of Inl (e, s) \<Rightarrow> s | Inr (rep, s) \<Rightarrow> s)"

text \<open>The state in which the loop starts: the directory was checked and listed.\<close>

definition loop_start :: "filesystem \<Rightarrow> path \<Rightarrow> state" where
  "loop_start fsys src =
     \<lparr>files = fsys, calls = [OpExists src, OpIsDir src, OpGlob src], outcomes = [],
      converted_count = 0, skipped_count = 0, error_count = 0\<rparr>"

text \<open>
  The words of the specification, "the color model includes an alpha channel", kept apart
  from the test the code makes (\<^verbatim>\<open>img.mode == 'RGBA'\<close>): the Pillow modes
  with an alpha band.
\<close>

definition spec_has_alpha_channel :: "image \<Rightarrow> bool" where
  "spec_has_alpha_channel img = (mode img \<in> set [''RGBA'', ''LA'', ''PA'', ''RGBa'', ''La''])"

subsection \<open>Example inputs\<close>

text \<open>
  A toy image library: the first byte of a file says which mode it decodes to (4 for RGBA,
  3 for RGB, 2 for LA), the other bytes are the samples of every band; anything else is
  not an image. Encoding never fails, every path is writable and the operating system
  refuses no path.
\<close>

definition ex_decode :: "bytes \<Rightarrow> exn + image" where
  "ex_decode c =
     (case c of
        [] \<Rightarrow> Inl (CodecError ''cannot identify image file'')
      | k # px \<Rightarrow>
          if k = 4 then Inr \<lparr>mode = ''RGBA'', bands = [px, px, px, px]\<rparr>
          else if k = 3 then Inr \<lparr>mode = ''RGB'', bands = [px, px, px]\<rparr>
          else if k = 2 then Inr \<lparr>mode = ''LA'', bands = [px, px]\<rparr>
          else Inl (CodecError ''cannot identify image file''))"

definition ex_encode :: "image \<Rightarrow> save_kwargs \<Rightarrow> exn + bytes" where
  "ex_encode img kw = Inr (length (bands img) # concat (bands img))"

definition ex_env :: env where
  "ex_env = \<lparr>decode = ex_decode, encode = ex_encode, writable = (\<lambda>p. True),
             stat_error = (\<lambda>p. None)\<rparr>"

text \<open>The same, on a system that refuses to look at one path, as it does for a long name.\<close>

definition ex_env_refusing :: env where
  "ex_env_refusing =
     ex_env\<lparr>stat_error := (\<lambda>p. if p = [''art'', ''b.webp'']
                                  then Some (OSError ''File name too long'') else None)\<rparr>"

text \<open>
  A directory with an opaque RGBA file, an RGBA file with a transparent pixel, a file that
  already has its WebP counterpart, and a file that is not an image.
\<close>

definition ex_fs :: filesystem where
  "ex_fs = [([''art''], Dir),
            ([''art'', ''a.png''], File [4, 255, 255]),
            ([''art'', ''b.png''], File [4, 0, 128]),
            ([''art'', ''c.png''], File [3, 7]),
            ([''art'', ''c.webp''], File [3, 7, 7, 7]),
            ([''art'', ''x.png''], File [])]"

text \<open>The state after the first run over that directory with quality 85, not lossless.\<close>

definition ex_state_after :: state where
  "ex_state_after =
     \<lparr>files = ex_fs @
        [([''art'', ''a.webp''], File [3, 255, 255, 255, 255, 255, 255]),
         ([''art'', ''b.webp''], File [4, 0, 128, 0, 128, 0, 128, 0, 128])],
      calls =
        [OpExists [''art''], OpIsDir [''art''], OpGlob [''art''],
         OpExists [''art'', ''a.webp''], OpOpen [''art'', ''a.png''], OpGetExtrema,
         OpConvert ''RGB'',
         OpSave [''art'', ''a.webp'']
           \<lparr>mode = ''RGB'', bands = [[255, 255], [255, 255], [255, 255]]\<rparr>
           \<lparr>kw_format = ''WEBP'', kw_lossless = None, kw_quality = Some 85\<rparr>,
         OpExists [''art'', ''b.webp''], OpOpen [''art'', ''b.png''], OpGetExtrema,
         OpSave [''art'', ''b.webp'']
           \<lparr>mode = ''RGBA'', bands = [[0, 128], [0, 128], [0, 128], [0, 128]]\<rparr>
           \<lparr>kw_format = ''WEBP'', kw_lossless = Some False, kw_quality = Some 85\<rparr>,
         OpExists [''art'', ''c.webp''],
         OpExists [''art'', ''x.webp''], OpOpen [''art'', ''x.png'']],
      outcomes =
        [Converted [''art'', ''a.png''] [''art'', ''a.webp''],
         Converted [''art'', ''b.png''] [''art'', ''b.webp''],
         Skipped [''art'', ''c.png''] [''art'', ''c.webp''],
         Failed [''art'', ''x.png''] (CodecError ''cannot identify image file'')],
      converted_count = 2, skipped_count = 1, error_count = 1\<rparr>"

text \<open>
  The state in which the run over that directory is left on the system that refuses the
  path of the second counterpart: the first file was converted and stays written.
\<close>

definition ex_state_raised :: state where
  "ex_state_raised =
     \<lparr>files = ex_fs @
        [([''art'', ''a.webp''], File [3, 255, 255, 255, 255, 255, 255])],
      calls =
        [OpExists [''art''], OpIsDir [''art''], OpGlob [''art''],
         OpExists [''art'', ''a.webp''], OpOpen [''art'', ''a.png''], OpGetExtrema,
         OpConvert ''RGB'',
         OpSave [''art'', ''a.webp'']
           \<lparr>mode = ''RGB'', bands = [[255, 255], [255, 255], [255, 255]]\<rparr>
           \<lparr>kw_format = ''WEBP'', kw_lossless = None, kw_quality = Some 85\<rparr>,
         OpExists [''art'', ''b.webp'']],
      outcomes = [Converted [''art'', ''a.png''] [''art'', ''a.webp'']],
      converted_count = 1, skipped_count = 0, error_count = 0\<rparr>"


definition ex_la :: image where
  "ex_la = \<lparr>mode = ''LA'', bands = [[10, 20], [0, 255]]\<rparr>"

definition ex_opaque :: image where
  "ex_opaque = \<lparr>mode = ''RGBA'', bands = [[255, 255], [255, 255], [255, 255], [255, 255]]\<rparr>"

definition ex_transparent :: image where
  "ex_transparent = \<lparr>mode = ''RGBA'', bands = [[0, 128], [0, 128], [0, 128], [0, 128]]\<rparr>"

section \<open>Properties\<close>

subsection \<open>One file\<close>

lemma update_absent: "map_of al k = None \<Longrightarrow> AList.update k v al = al @ [(k, v)]"
  by (induction al) (auto split: if_splits)

lemma try_convert_ok:
  assumes "try_convert ev q l fsys p w = (ops, Inr f')"
  shows "\<exists>c. f' = AList.update w (File c) fsys"
  using assms
  by (auto simp: try_convert_def save_def split: sum.splits prod.splits if_splits)

lemma try_convert_same_source:
  assumes "map_of fsys p = map_of fsys' p"
  shows "fst (try_convert ev q l fsys' p w) = fst (try_convert ev q l fsys p w)"
    and "snd (try_convert ev q l fsys p w) = Inl e \<Longrightarrow> snd (try_convert ev q l fsys' p w) = Inl e"
  using assms
  by (auto simp: try_convert_def image_open_def save_def split: sum.splits prod.splits if_splits option.splits node.splits)

lemma path_exists_Inr:
  "path_exists ev fsys p = Inr b \<longleftrightarrow> stat_error ev p = None \<and> b = file_present fsys p"
  by (auto simp: path_exists_def file_present_def split: option.splits)


lemma convert_one_skip:
  assumes "with_suffix p ''.webp'' = Inr w" and "path_exists ev (files s) w = Inr True"
  shows "convert_one ev q l s p =
    Inr (s\<lparr>calls := calls s @ [OpExists w], outcomes := outcomes s @ [Skipped p w],
           skipped_count := skipped_count s + 1\<rparr>)"
  using assms by (simp add: convert_one_def)

lemma convert_one_failed:
  assumes "with_suffix p ''.webp'' = Inr w" and "path_exists ev (files s) w = Inr False"
    and "try_convert ev q l (files s) p w = (ops, Inl e)"
  shows "convert_one ev q l s p =
    Inr (s\<lparr>calls := calls s @ OpExists w # ops, outcomes := outcomes s @ [Failed p e],
           error_count := error_count s + 1\<rparr>)"
  using assms by (simp add: convert_one_def)

lemma convert_one_converted:
  assumes "with_suffix p ''.webp'' = Inr w" and "path_exists ev (files s) w = Inr False"
    and "try_convert ev q l (files s) p w = (ops, Inr f')"
  shows "convert_one ev q l s p =
    Inr (s\<lparr>files := f', calls := calls s @ OpExists w # ops,
           outcomes := outcomes s @ [Converted p w],
           converted_count := converted_count s + 1\<rparr>)"
  using assms by (simp add: convert_one_def)

lemma convert_one_cases:
  assumes "convert_one ev q l s p = Inr s'"
  obtains (skip) w where "with_suffix p ''.webp'' = Inr w" "file_present (files s) w"
      "stat_error ev w = None"
      "s' = s\<lparr>calls := calls s @ [OpExists w], outcomes := outcomes s @ [Skipped p w],
           skipped_count := skipped_count s + 1\<rparr>"
  | (failed) w ops e where "with_suffix p ''.webp'' = Inr w" "\<not> file_present (files s) w"
      "stat_error ev w = None"
      "try_convert ev q l (files s) p w = (ops, Inl e)"
      "s' = s\<lparr>calls := calls s @ OpExists w # ops, outcomes := outcomes s @ [Failed p e],
           error_count := error_count s + 1\<rparr>"
  | (converted) w ops c where "with_suffix p ''.webp'' = Inr w" "\<not> file_present (files s) w"
      "stat_error ev w = None"
      "try_convert ev q l (files s) p w = (ops, Inr (files s @ [(w, File c)]))"
      "s' = s\<lparr>files := files s @ [(w, File c)], calls := calls s @ OpExists w # ops,
           outcomes := outcomes s @ [Converted p w],
           converted_count := converted_count s + 1\<rparr>"
proof (cases "with_suffix p ''.webp''")
  case (Inl e)
  with assms show ?thesis by (simp add: convert_one_def)
next
  case (Inr w)
  show ?thesis
  proof (cases "path_exists ev (files s) w")
    case (Inl e)
    with Inr assms show ?thesis by (simp add: convert_one_def)
  next
    case found: (Inr b)
    then have st: "stat_error ev w = None" and b: "b = file_present (files s) w"
      by (simp_all add: path_exists_Inr)
    show ?thesis
    proof (cases b)
      case True
      with Inr found b st assms skip show ?thesis by (simp add: convert_one_skip)
    next
      case False
      with found have pe: "path_exists ev (files s) w = Inr False" by simp
      from False b have np: "\<not> file_present (files s) w" by simp
      obtain ops r where tc: "try_convert ev q l (files s) p w = (ops, r)"
        by (cases "try_convert ev q l (files s) p w")
      show ?thesis
      proof (cases r)
        case (Inl e)
        with Inr pe np st tc assms failed show ?thesis by (simp add: convert_one_failed)
      next
        case r: (Inr f')
        from try_convert_ok tc r obtain c where "f' = AList.update w (File c) (files s)"
          by blast
        with np have f': "f' = files s @ [(w, File c)]"
          by (simp add: update_absent file_present_def)
        from Inr pe tc r assms have "s' = s\<lparr>files := f', calls := calls s @ OpExists w # ops,
             outcomes := outcomes s @ [Converted p w],
             converted_count := converted_count s + 1\<rparr>"
          by (simp add: convert_one_converted)
        with converted Inr np st tc r f' show ?thesis by simp
      qed
    qed
  qed
qed


lemma convert_one_raised_files:
  assumes "convert_one ev q l s p = Inl (e, s')"
  shows "files s' = files s"
  using assms
  by (auto simp: convert_one_def split: sum.splits prod.splits if_splits)

lemma try_convert_opens:
  assumes "try_convert ev q l fsys p w = (ops, r)" and "OpOpen x \<in> set ops"
  shows "x = p"
  using assms
  by (auto simp: try_convert_def choose_save_def split: sum.splits prod.splits if_splits)

lemma try_convert_saves:
  assumes "try_convert ev q l fsys p w = (ops, r)" and "OpSave y img kw \<in> set ops"
  shows "y = w"
  using assms
  by (auto simp: try_convert_def choose_save_def split: sum.splits prod.splits if_splits)

subsection \<open>The loop\<close>

lemma webp_not_png:
  assumes "with_suffix p ''.webp'' = Inr w"
  shows "w \<noteq> [] \<and> \<not> matches_png (last w)"
  using assms
  by (auto simp: with_suffix_def Let_def matches_png_def split: if_splits)

lemma glob_png_append:
  assumes "\<forall>x \<in> fst ` set added. \<exists>p. with_suffix p ''.webp'' = Inr x"
  shows "glob_png (fsys @ added) d = glob_png fsys d"
proof -
  have "filter (\<lambda>p. p \<noteq> [] \<and> butlast p = d \<and> matches_png (last p)) (map fst added) = []"
    using assms webp_not_png by (fastforce simp: filter_empty_conv)
  then show ?thesis by (simp add: glob_png_def)
qed

lemma map_of_append_left: "map_of al k = Some n \<Longrightarrow> map_of (al @ bl) k = Some n"
  by (simp add: map_add_Some_iff)

lemma file_present_append:
  "file_present (al @ bl) x \<longleftrightarrow> file_present al x \<or> x \<in> fst ` set bl"
  by (auto simp: file_present_def map_add_Some_iff map_of_eq_None_iff dest: map_of_SomeD weak_map_of_SomeI)

text \<open>
  The loop only adds files, at the end of the listing, at most one for each file it was
  given, also when it is left by an exception.
\<close>

lemma convert_loop_files_any:
  "\<exists>added. files (loop_state (convert_loop ev q l ps s)) = files s @ added
      \<and> (\<forall>x \<in> fst ` set added. \<not> file_present (files s) x
            \<and> (\<exists>p \<in> set ps. with_suffix p ''.webp'' = Inr x))
      \<and> length added \<le> length ps"
proof (induction ps arbitrary: s)
  case Nil
  show ?case by (simp add: loop_state_def)
next
  case (Cons p ps)
  show ?case
  proof (cases "convert_one ev q l s p")
    case (Inl a)
    obtain e s1 where a: "a = (e, s1)" by (cases a)
    with Inl have "files s1 = files s" by (simp add: convert_one_raised_files)
    with Inl a show ?thesis by (intro exI [of _ "[]"]) (simp add: loop_state_def)
  next
    case (Inr s1)
    then have eq: "convert_loop ev q l (p # ps) s = convert_loop ev q l ps s1" by simp
    from Cons.IH [of s1] obtain added where
      a: "files (loop_state (convert_loop ev q l ps s1)) = files s1 @ added"
        "\<forall>x \<in> fst ` set added. \<not> file_present (files s1) x
            \<and> (\<exists>p \<in> set ps. with_suffix p ''.webp'' = Inr x)"
        "length added \<le> length ps"
      by blast
    from Inr show ?thesis
    proof (cases rule: convert_one_cases)
      case (skip w)
      with a eq show ?thesis by (intro exI [of _ added]) auto
    next
      case (failed w ops e)
      with a eq show ?thesis by (intro exI [of _ added]) auto
    next
      case (converted w ops c)
      with a eq show ?thesis
        by (intro exI [of _ "(w, File c) # added"]) (auto simp: file_present_append)
    qed
  qed
qed

lemma convert_loop_files:
  assumes "convert_loop ev q l ps s = Inr s'"
  shows "\<exists>added. files s' = files s @ added
      \<and> (\<forall>x \<in> fst ` set added. \<not> file_present (files s) x
            \<and> (\<exists>p \<in> set ps. with_suffix p ''.webp'' = Inr x))"
  using convert_loop_files_any [of ev q l ps s] assms by (auto simp: loop_state_def)

lemma convert_loop_preserves:
  assumes "convert_loop ev q l ps s = Inr s'" and "map_of (files s) x = Some n"
  shows "map_of (files s') x = Some n"
  using convert_loop_files [OF assms(1)] assms(2) by (auto simp: map_of_append_left)

lemma convert_loop_exists_mono:
  assumes "convert_loop ev q l ps s = Inr s'" and "file_present (files s) x"
  shows "file_present (files s') x"
  using convert_loop_files [OF assms(1)] assms(2) by (auto simp: file_present_append)



lemma convert_loop_checked:
  assumes "convert_loop ev q l ps s = Inr s'" and "p \<in> set ps"
  shows "\<exists>w. with_suffix p ''.webp'' = Inr w \<and> stat_error ev w = None"
  using assms
proof (induction ps arbitrary: s)
  case Nil
  then show ?case by simp
next
  case (Cons a ps)
  from Cons.prems(1) obtain s1 where one: "convert_one ev q l s a = Inr s1"
    and rest: "convert_loop ev q l ps s1 = Inr s'"
    by (auto split: sum.splits)
  show ?case
  proof (cases "p = a")
    case True
    from one show ?thesis by (cases rule: convert_one_cases) (auto simp: True)
  next
    case False
    with Cons.prems(2) have "p \<in> set ps" by simp
    from Cons.IH [OF rest this] show ?thesis .
  qed
qed

lemma convert_loop_outcomes:
  assumes "convert_loop ev q l ps s = Inr s'"
  shows "\<exists>os. outcomes s' = outcomes s @ os \<and> map outcome_file os = ps
      \<and> converted_count s' = converted_count s + length (filter is_converted os)
      \<and> skipped_count s' = skipped_count s + length (filter is_skipped os)
      \<and> error_count s' = error_count s + length (filter is_failed os)"
  using assms
proof (induction ps arbitrary: s)
  case Nil
  then show ?case by simp
next
  case (Cons p ps)
  from Cons.prems obtain s1 where one: "convert_one ev q l s p = Inr s1"
    and rest: "convert_loop ev q l ps s1 = Inr s'"
    by (auto split: sum.splits)
  from Cons.IH [OF rest] obtain os where os: "outcomes s' = outcomes s1 @ os" "map outcome_file os = ps"
      "converted_count s' = converted_count s1 + length (filter is_converted os)"
      "skipped_count s' = skipped_count s1 + length (filter is_skipped os)"
      "error_count s' = error_count s1 + length (filter is_failed os)"
    by blast
  from one show ?case
  proof (cases rule: convert_one_cases)
    case (skip w)
    with os show ?thesis by (intro exI [of _ "Skipped p w # os"]) simp
  next
    case (failed w ops e)
    with os show ?thesis by (intro exI [of _ "Failed p e # os"]) simp
  next
    case (converted w ops c)
    with os show ?thesis by (intro exI [of _ "Converted p w # os"]) simp
  qed
qed

lemma outcome_partition:
  "length (filter is_converted os) + length (filter is_skipped os) + length (filter is_failed os) = length os"
proof (induction os)
  case Nil
  show ?case by simp
next
  case (Cons x os)
  then show ?case by (cases x) simp_all
qed

lemma convert_loop_counts:
  assumes "convert_loop ev q l ps s = Inr s'"
  shows "converted_count s' + skipped_count s' + error_count s'
       = converted_count s + skipped_count s + error_count s + length ps"
proof -
  from convert_loop_outcomes [OF assms] obtain os where os: "map outcome_file os = ps"
      "converted_count s' = converted_count s + length (filter is_converted os)"
      "skipped_count s' = skipped_count s + length (filter is_skipped os)"
      "error_count s' = error_count s + length (filter is_failed os)"
    by blast
  from os(1) have "length os = length ps" by (metis length_map)
  with os outcome_partition [of os] show ?thesis by simp
qed

text \<open>What the loop did for each file, seen from the state it started in.\<close>

lemma convert_loop_trace:
  assumes "convert_loop ev q l ps s = Inr s'"
  shows "\<exists>cs os. calls s' = calls s @ cs \<and> outcomes s' = outcomes s @ os
      \<and> (\<forall>p. OpOpen p \<in> set cs \<longrightarrow> \<not> webp_exists (files s) p)
      \<and> (\<forall>w img kw. OpSave w img kw \<in> set cs \<longrightarrow> \<not> file_present (files s) w)
      \<and> (\<forall>p w. Converted p w \<in> set os \<longrightarrow> \<not> webp_exists (files s) p)
      \<and> (\<forall>p e. Failed p e \<in> set os \<longrightarrow> \<not> webp_exists (files s) p)
      \<and> (\<forall>p \<in> set ps. \<forall>w. with_suffix p ''.webp'' = Inr w \<longrightarrow> file_present (files s) w \<longrightarrow> Skipped p w \<in> set os)"
  using assms
proof (induction ps arbitrary: s)
  case Nil
  then show ?case by simp
next
  case (Cons p ps)
  from Cons.prems obtain s1 where one: "convert_one ev q l s p = Inr s1"
    and rest: "convert_loop ev q l ps s1 = Inr s'"
    by (auto split: sum.splits)
  from Cons.IH [OF rest] obtain cs os where ih: "calls s' = calls s1 @ cs" "outcomes s' = outcomes s1 @ os"
      "\<forall>p. OpOpen p \<in> set cs \<longrightarrow> \<not> webp_exists (files s1) p"
      "\<forall>w img kw. OpSave w img kw \<in> set cs \<longrightarrow> \<not> file_present (files s1) w"
      "\<forall>p w. Converted p w \<in> set os \<longrightarrow> \<not> webp_exists (files s1) p"
      "\<forall>p e. Failed p e \<in> set os \<longrightarrow> \<not> webp_exists (files s1) p"
      "\<forall>p \<in> set ps. \<forall>w. with_suffix p ''.webp'' = Inr w \<longrightarrow> file_present (files s1) w \<longrightarrow> Skipped p w \<in> set os"
    by blast
  have mono: "webp_exists (files s) x \<Longrightarrow> webp_exists (files s1) x"
    and mono': "file_present (files s) x \<Longrightarrow> file_present (files s1) x" for x
    using one by (cases rule: convert_one_cases; auto simp: webp_exists_def file_present_append split: sum.splits)+
  have c1: "OpOpen x \<in> set cs \<Longrightarrow> \<not> webp_exists (files s) x" for x
    using ih(3) mono by blast
  have c2: "OpSave y img kw \<in> set cs \<Longrightarrow> \<not> file_present (files s) y" for y img kw
    using ih(4) mono' by blast
  have c3: "Converted x y \<in> set os \<Longrightarrow> \<not> webp_exists (files s) x" for x y
    using ih(5) mono by blast
  have c4: "Failed x e \<in> set os \<Longrightarrow> \<not> webp_exists (files s) x" for x e
    using ih(6) mono by blast
  have c5: "x \<in> set ps \<Longrightarrow> with_suffix x ''.webp'' = Inr y \<Longrightarrow> file_present (files s) y
      \<Longrightarrow> Skipped x y \<in> set os" for x y
    using ih(7) mono' by blast
  from one show ?case
  proof (cases rule: convert_one_cases)
    case (skip w)
    have "calls s' = calls s @ (OpExists w # cs)" "outcomes s' = outcomes s @ (Skipped p w # os)"
      using skip ih(1,2) by simp_all
    moreover have "\<not> webp_exists (files s) x" if "OpOpen x \<in> set (OpExists w # cs)" for x
      using that c1 by simp
    moreover have "\<not> file_present (files s) y" if "OpSave y img kw \<in> set (OpExists w # cs)" for y img kw
      using that c2 by simp
    moreover have "\<not> webp_exists (files s) x" if "Converted x y \<in> set (Skipped p w # os)" for x y
      using that c3 by simp
    moreover have "\<not> webp_exists (files s) x" if "Failed x e \<in> set (Skipped p w # os)" for x e
      using that c4 by simp
    moreover have "Skipped x y \<in> set (Skipped p w # os)"
      if "x \<in> set (p # ps)" "with_suffix x ''.webp'' = Inr y" "file_present (files s) y" for x y
      using that c5 skip(1) by auto
    ultimately show ?thesis by blast
  next
    case (failed w ops e)
    have nw: "\<not> webp_exists (files s) p" using failed by (simp add: webp_exists_def)
    have "calls s' = calls s @ (OpExists w # ops @ cs)" "outcomes s' = outcomes s @ (Failed p e # os)"
      using failed ih(1,2) by simp_all
    moreover have "\<not> webp_exists (files s) x" if "OpOpen x \<in> set (OpExists w # ops @ cs)" for x
      using that c1 nw try_convert_opens [OF failed(4)] by auto
    moreover have "\<not> file_present (files s) y" if "OpSave y img kw \<in> set (OpExists w # ops @ cs)" for y img kw
      using that c2 failed(2) try_convert_saves [OF failed(4)] by auto
    moreover have "\<not> webp_exists (files s) x" if "Converted x y \<in> set (Failed p e # os)" for x y
      using that c3 by simp
    moreover have "\<not> webp_exists (files s) x" if "Failed x e' \<in> set (Failed p e # os)" for x e'
      using that c4 nw by auto
    moreover have "Skipped x y \<in> set (Failed p e # os)"
      if "x \<in> set (p # ps)" "with_suffix x ''.webp'' = Inr y" "file_present (files s) y" for x y
      using that c5 failed(1,2) by auto
    ultimately show ?thesis by blast
  next
    case (converted w ops c)
    have nw: "\<not> webp_exists (files s) p" using converted by (simp add: webp_exists_def)
    have "calls s' = calls s @ (OpExists w # ops @ cs)" "outcomes s' = outcomes s @ (Converted p w # os)"
      using converted ih(1,2) by simp_all
    moreover have "\<not> webp_exists (files s) x" if "OpOpen x \<in> set (OpExists w # ops @ cs)" for x
      using that c1 nw try_convert_opens [OF converted(4)] by auto
    moreover have "\<not> file_present (files s) y" if "OpSave y img kw \<in> set (OpExists w # ops @ cs)" for y img kw
      using that c2 converted(2) try_convert_saves [OF converted(4)] by auto
    moreover have "\<not> webp_exists (files s) x" if "Converted x y \<in> set (Converted p w # os)" for x y
      using that c3 nw by auto
    moreover have "\<not> webp_exists (files s) x" if "Failed x e' \<in> set (Converted p w # os)" for x e'
      using that c4 by simp
    moreover have "Skipped x y \<in> set (Converted p w # os)"
      if "x \<in> set (p # ps)" "with_suffix x ''.webp'' = Inr y" "file_present (files s) y" for x y
      using that c5 converted(1,2) by auto
    ultimately show ?thesis by blast
  qed
qed

text \<open>
  A file left without a WebP counterpart failed, and fails again on the file system the
  loop leaves behind; a loop over files that are all skipped or fail changes no file.
\<close>

lemma convert_loop_fails_again:
  assumes "convert_loop ev q l ps s = Inr s'"
    and "\<forall>p \<in> set ps. file_present (files s) p"
    and "p \<in> set ps" and "with_suffix p ''.webp'' = Inr w" and "\<not> file_present (files s') w"
  shows "\<exists>e. snd (try_convert ev q l (files s') p w) = Inl e"
  using assms
proof (induction ps arbitrary: s)
  case Nil
  then show ?case by simp
next
  case (Cons a ps)
  from Cons.prems(1) obtain s1 where one: "convert_one ev q l s a = Inr s1"
    and rest: "convert_loop ev q l ps s1 = Inr s'"
    by (auto split: sum.splits)
  have step: "convert_loop ev q l [a] s = Inr s1" using one by simp
  show ?case
  proof (cases "p \<in> set ps")
    case True
    have "\<forall>p \<in> set ps. file_present (files s1) p"
      using Cons.prems(2) convert_loop_exists_mono [OF step] by auto
    from Cons.IH [OF rest this True Cons.prems(4,5)] show ?thesis .
  next
    case False
    with Cons.prems(3) have pa: "p = a" by simp
    have nw1: "\<not> file_present (files s1) w"
      using Cons.prems(5) convert_loop_exists_mono [OF rest] by blast
    have nw: "\<not> file_present (files s) w"
      using nw1 convert_loop_exists_mono [OF step] by blast
    from Cons.prems(2) pa obtain n where n: "map_of (files s) p = Some n"
      by (auto simp: file_present_def)
    have "map_of (files s1) p = Some n" using convert_loop_preserves [OF step n] .
    then have same: "map_of (files s) p = map_of (files s') p"
      using convert_loop_preserves [OF rest] n by simp
    from one have "\<exists>ops e. try_convert ev q l (files s) p w = (ops, Inl e)"
    proof (cases rule: convert_one_cases)
      case (skip w')
      with pa Cons.prems(4) nw show ?thesis by simp
    next
      case (failed w' ops e)
      with pa Cons.prems(4) show ?thesis by auto
    next
      case (converted w' ops c)
      with pa Cons.prems(4) nw1 show ?thesis by (simp add: file_present_append)
    qed
    then obtain e where "snd (try_convert ev q l (files s) p w) = Inl e" by force
    from try_convert_same_source(2) [OF same this] show ?thesis by blast
  qed
qed

lemma convert_loop_rerun:
  assumes "\<forall>p \<in> set ps. \<exists>w. with_suffix p ''.webp'' = Inr w \<and> stat_error ev w = None \<and>
             (file_present (files s) w \<or> (\<exists>e. snd (try_convert ev q l (files s) p w) = Inl e))"
  shows "\<exists>s'. convert_loop ev q l ps s = Inr s' \<and> files s' = files s
      \<and> converted_count s' = converted_count s
      \<and> skipped_count s' = skipped_count s + length (filter (webp_exists (files s)) ps)"
  using assms
proof (induction ps arbitrary: s)
  case Nil
  then show ?case by simp
next
  case (Cons p ps)
  from Cons.prems obtain w where w: "with_suffix p ''.webp'' = Inr w"
    and st: "stat_error ev w = None"
    and alt: "file_present (files s) w \<or> (\<exists>e. snd (try_convert ev q l (files s) p w) = Inl e)"
    by auto
  have "\<exists>s1. convert_one ev q l s p = Inr s1 \<and> files s1 = files s
      \<and> converted_count s1 = converted_count s
      \<and> skipped_count s1 = skipped_count s + (if webp_exists (files s) p then 1 else 0)"
  proof (cases "file_present (files s) w")
    case True
    with st have "path_exists ev (files s) w = Inr True" by (simp add: path_exists_Inr)
    with w True show ?thesis by (simp add: convert_one_skip webp_exists_def)
  next
    case False
    with st have pe: "path_exists ev (files s) w = Inr False" by (simp add: path_exists_Inr)
    from False alt obtain ops e where "try_convert ev q l (files s) p w = (ops, Inl e)"
      by (cases "try_convert ev q l (files s) p w") auto
    with w pe False show ?thesis by (simp add: convert_one_failed webp_exists_def)
  qed
  then obtain s1 where s1: "convert_one ev q l s p = Inr s1" "files s1 = files s"
      "converted_count s1 = converted_count s"
      "skipped_count s1 = skipped_count s + (if webp_exists (files s) p then 1 else 0)"
    by blast
  from Cons.prems s1(2) have "\<forall>p \<in> set ps. \<exists>w. with_suffix p ''.webp'' = Inr w
          \<and> stat_error ev w = None \<and>
             (file_present (files s1) w \<or> (\<exists>e. snd (try_convert ev q l (files s1) p w) = Inl e))"
    by simp
  from Cons.IH [OF this] obtain s' where "convert_loop ev q l ps s1 = Inr s'" "files s' = files s1"
      "converted_count s' = converted_count s1"
      "skipped_count s' = skipped_count s1 + length (filter (webp_exists (files s1)) ps)"
    by blast
  with s1 show ?case by simp
qed

lemma convert_loop_done_exist:
  assumes "convert_loop ev q l ps s = Inr s'"
  shows "converted_count s' + skipped_count s'
       \<le> converted_count s + skipped_count s + length (filter (webp_exists (files s')) ps)"
  using assms
proof (induction ps arbitrary: s)
  case Nil
  then show ?case by simp
next
  case (Cons p ps)
  from Cons.prems obtain s1 where one: "convert_one ev q l s p = Inr s1"
    and rest: "convert_loop ev q l ps s1 = Inr s'"
    by (auto split: sum.splits)
  note ih = Cons.IH [OF rest]
  from one show ?case
  proof (cases rule: convert_one_cases)
    case (skip w)
    then have "file_present (files s1) w" by simp
    then have "webp_exists (files s') p"
      using convert_loop_exists_mono [OF rest] skip(1) by (simp add: webp_exists_def)
    with ih skip show ?thesis by simp
  next
    case (failed w ops e)
    with ih show ?thesis by simp
  next
    case (converted w ops c)
    then have "file_present (files s1) w" by (simp add: file_present_append)
    then have "webp_exists (files s') p"
      using convert_loop_exists_mono [OF rest] converted(1) by (simp add: webp_exists_def)
    with ih converted show ?thesis by simp
  qed
qed

subsection \<open>The whole run\<close>

lemma is_dir_Inr:
  "is_dir ev fsys p = Inr b \<longleftrightarrow> stat_error ev p = None \<and> b = (map_of fsys p = Some Dir)"
  by (auto simp: is_dir_def split: option.splits)

lemma is_dir_exists: "is_dir ev fsys p = Inr True \<Longrightarrow> path_exists ev fsys p = Inr True"
  by (auto simp: is_dir_Inr path_exists_Inr file_present_def)

lemma run_on_dir:
  assumes "is_dir ev fsys src = Inr True" and "glob_png fsys src \<noteq> []"
  shows "convert_png_to_webp ev fsys src q l =
     (case convert_loop ev q l (glob_png fsys src) (loop_start fsys src) of
        Inl a \<Rightarrow> Inl a
      | Inr s \<Rightarrow> Inr (Summary (length (glob_png fsys src)) (converted_count s)
                       (skipped_count s) (error_count s), s))"
  using assms is_dir_exists [OF assms(1)]
  by (simp add: convert_png_to_webp_def loop_start_def Let_def)

lemma run_without_loop:
  assumes "\<not> (is_dir ev fsys src = Inr True \<and> glob_png fsys src \<noteq> [])"
  shows "files (run_state (convert_png_to_webp ev fsys src q l)) = fsys
    \<and> set (calls (run_state (convert_png_to_webp ev fsys src q l)))
          \<subseteq> {OpExists src, OpIsDir src, OpGlob src}
    \<and> outcomes (run_state (convert_png_to_webp ev fsys src q l)) = []
    \<and> (\<forall>t c k e s. convert_png_to_webp ev fsys src q l \<noteq> Inr (Summary t c k e, s))
    \<and> (\<forall>e s. convert_png_to_webp ev fsys src q l = Inl (e, s) \<longrightarrow> stat_error ev src = Some e)"
  using assms
  by (auto simp: convert_png_to_webp_def run_state_def Let_def path_exists_def is_dir_def
      split: sum.splits option.splits if_splits)

lemma run_cases:
  assumes "convert_png_to_webp ev fsys src q l = Inr (r, s)"
  obtains (no_loop) "\<not> (is_dir ev fsys src = Inr True \<and> glob_png fsys src \<noteq> [])" "files s = fsys"
      "set (calls s) \<subseteq> {OpExists src, OpIsDir src, OpGlob src}" "outcomes s = []"
      "\<forall>t c k e. r \<noteq> Summary t c k e"
  | (loop) "is_dir ev fsys src = Inr True" "glob_png fsys src \<noteq> []"
      "convert_loop ev q l (glob_png fsys src) (loop_start fsys src) = Inr s"
      "r = Summary (length (glob_png fsys src)) (converted_count s) (skipped_count s) (error_count s)"
proof (cases "is_dir ev fsys src = Inr True \<and> glob_png fsys src \<noteq> []")
  case True
  with assms loop show ?thesis by (auto simp: run_on_dir split: sum.splits)
next
  case False
  from run_without_loop [OF False, of q l] assms no_loop False show ?thesis
    by (auto simp: run_state_def)
qed


lemma glob_exists: "p \<in> set (glob_png fsys src) \<Longrightarrow> file_present fsys p"
  by (auto simp: glob_png_def file_present_def map_of_eq_None_iff)



section \<open>The claims\<close>

subsection \<open>Running twice\<close>

text \<open>
  Claim C1, as the specification states it: on a second run over the same directory with
  the same options every file is skipped, so that the summary shows
  \<open>skipped_count = total_found\<close>. The example directory refutes it: the file that is not
  an image fails in the first run, gets no WebP counterpart, and fails again in the
  second, whose summary is 4 found, 0 converted, 3 skipped, 1 error.
\<close>

theorem second_run_all_skipped_counterexample:
  "convert_png_to_webp ex_env ex_fs [''art''] 85 False = Inr (Summary 4 2 1 1, ex_state_after)
   \<and> map_sum id fst (convert_png_to_webp ex_env (files ex_state_after) [''art''] 85 False)
       = Inr (Summary 4 0 3 1)
   \<and> (3::nat) \<noteq> 4"
  by code_simp

text \<open>
  Claim C1, amended: after a run that printed a summary, a second run on the file system
  it left, with the same options and the same environment, finds the same number of
  files, converts none, writes no file, and records as Skipped every file whose WebP
  counterpart exists; these are at least the files the first run converted or skipped.
  The files without a counterpart fail again, so \<open>skipped_count = total_found\<close> holds
  when the first run had no error.
\<close>

theorem second_run_converts_nothing:
  assumes "convert_png_to_webp ev fsys src q l = Inr (Summary t c k e, s1)"
  shows "\<exists>k' e' s2. convert_png_to_webp ev (files s1) src q l = Inr (Summary t 0 k' e', s2)
     \<and> files s2 = files s1 \<and> k' + e' = t \<and> c + k \<le> k'
     \<and> k' = length (filter (webp_exists (files s1)) (glob_png fsys src))
     \<and> (e = 0 \<longrightarrow> k' = t)
     \<and> (\<forall>p \<in> set (glob_png fsys src). \<forall>w. with_suffix p ''.webp'' = Inr w \<longrightarrow>
           file_present (files s1) w \<longrightarrow> Skipped p w \<in> set (outcomes s2))"
  using assms
proof (cases rule: run_cases)
  case no_loop
  then show ?thesis by simp
next
  case loop
  let ?ps = "glob_png fsys src"
  from convert_loop_files [OF loop(3)] obtain added where
    a: "files s1 = fsys @ added"
       "\<forall>x \<in> fst ` set added. \<exists>p. with_suffix p ''.webp'' = Inr x"
    unfolding loop_start_def by fastforce
  have g: "glob_png (files s1) src = ?ps" using a by (simp add: glob_png_append)
  have d: "is_dir ev (files s1) src = Inr True"
    using loop(1) a(1) by (auto simp: is_dir_Inr map_of_append_left)
  have ex: "\<forall>p \<in> set ?ps. file_present (files (loop_start fsys src)) p"
    using glob_exists by (simp add: loop_start_def)
  have "\<forall>p \<in> set ?ps. \<exists>w. with_suffix p ''.webp'' = Inr w \<and> stat_error ev w = None \<and>
      (file_present (files (loop_start (files s1) src)) w
        \<or> (\<exists>e. snd (try_convert ev q l (files (loop_start (files s1) src)) p w) = Inl e))"
  proof
    fix p assume p: "p \<in> set ?ps"
    from convert_loop_checked [OF loop(3) p] obtain w where
      w: "with_suffix p ''.webp'' = Inr w" and st: "stat_error ev w = None"
      by blast
    have "file_present (files s1) w \<or> (\<exists>e. snd (try_convert ev q l (files s1) p w) = Inl e)"
      using convert_loop_fails_again [OF loop(3) ex p w] by blast
    with w st show "\<exists>w. with_suffix p ''.webp'' = Inr w \<and> stat_error ev w = None \<and>
      (file_present (files (loop_start (files s1) src)) w
        \<or> (\<exists>e. snd (try_convert ev q l (files (loop_start (files s1) src)) p w) = Inl e))"
      by (simp add: loop_start_def)
  qed
  from convert_loop_rerun [OF this] obtain s2 where
    s2: "convert_loop ev q l ?ps (loop_start (files s1) src) = Inr s2" "files s2 = files s1"
       "converted_count s2 = 0"
       "skipped_count s2 = length (filter (webp_exists (files s1)) ?ps)"
    by (auto simp: loop_start_def)
  from convert_loop_counts [OF s2(1)] s2(3)
  have sum2: "skipped_count s2 + error_count s2 = length ?ps" by (simp add: loop_start_def)
  from convert_loop_counts [OF loop(3)]
  have sum1: "converted_count s1 + skipped_count s1 + error_count s1 = length ?ps"
    by (simp add: loop_start_def)
  from convert_loop_done_exist [OF loop(3)]
  have lower: "converted_count s1 + skipped_count s1 \<le> skipped_count s2"
    using s2(4) by (simp add: loop_start_def)
  have run2: "convert_png_to_webp ev (files s1) src q l =
      Inr (Summary t 0 (skipped_count s2) (error_count s2), s2)"
    using d g loop(2,4) s2(1,3) by (simp add: run_on_dir)
  from loop(4) have eqs: "t = length ?ps" "c = converted_count s1" "k = skipped_count s1"
      "e = error_count s1"
    by simp_all
  from convert_loop_trace [OF s2(1)]
  have skipped: "\<forall>p \<in> set ?ps. \<forall>w. with_suffix p ''.webp'' = Inr w \<longrightarrow>
           file_present (files s1) w \<longrightarrow> Skipped p w \<in> set (outcomes s2)"
    by (auto simp: loop_start_def)
  have "skipped_count s2 + error_count s2 = t" using sum2 eqs by simp
  moreover have "c + k \<le> skipped_count s2" using lower eqs by simp
  moreover have "e = 0 \<longrightarrow> skipped_count s2 = t" using sum1 sum2 lower eqs by auto
  ultimately show ?thesis using run2 s2(2,4) skipped by blast
qed

theorem second_run_converts_nothing_witness:
  "convert_png_to_webp ex_env ex_fs [''art''] 85 False = Inr (Summary 4 2 1 1, ex_state_after)
   \<and> (\<exists>k' e' s2. convert_png_to_webp ex_env (files ex_state_after) [''art''] 85 False
          = Inr (Summary 4 0 k' e', s2)
        \<and> files s2 = files ex_state_after \<and> k' + e' = 4 \<and> 2 + 1 \<le> k')"
proof -
  have run: "convert_png_to_webp ex_env ex_fs [''art''] 85 False
      = Inr (Summary 4 2 1 1, ex_state_after)"
    by code_simp
  from second_run_converts_nothing [OF run] show ?thesis using run by blast
qed

subsection \<open>The mode decision\<close>

text \<open>
  Claim C2, as the specification states it: for every decoded image whose color model
  includes an alpha channel the alpha range is inspected. The code inspects it for the
  mode RGBA only. A grayscale image with alpha (mode LA) that has a transparent pixel is
  saved without any look at its alpha band, with the quality and without the lossless
  option, also when lossless was asked for.
\<close>

theorem alpha_of_la_not_inspected_counterexample:
  "spec_has_alpha_channel ex_la
   \<and> alpha_min (ex_la\<lparr>bands := [[10, 20], [10, 20], [10, 20], [0, 255]]\<rparr>) = Inr 0
   \<and> OpGetExtrema \<notin> set (fst (choose_save ex_la 85 True))
   \<and> choose_save ex_la 85 True =
       ([], Inr (ex_la, \<lparr>kw_format = ''WEBP'', kw_lossless = None, kw_quality = Some 85\<rparr>))"
  by code_simp

text \<open>
  Claim C2, amended: for every decoded image whose mode is RGBA the extrema of the bands
  are read, right after the file is opened, to decide how to encode; an image of any
  other mode, with or without an alpha channel, is saved as it is with the quality
  applied and the lossless option not passed on.
\<close>

theorem alpha_inspected_for_rgba_only:
  assumes "image_open ev fsys p = Inr img"
  shows "(mode img = ''RGBA'' \<longrightarrow>
           (\<exists>rest r. try_convert ev q l fsys p w = (OpOpen p # OpGetExtrema # rest, r)))
       \<and> (mode img \<noteq> ''RGBA'' \<longrightarrow>
           try_convert ev q l fsys p w =
             ([OpOpen p,
               OpSave w img \<lparr>kw_format = ''WEBP'', kw_lossless = None, kw_quality = Some q\<rparr>],
              save ev fsys w img
                \<lparr>kw_format = ''WEBP'', kw_lossless = None, kw_quality = Some q\<rparr>))"
  using assms by (auto simp: try_convert_def choose_save_def split: sum.splits)

theorem alpha_inspected_for_rgba_only_witness:
  "image_open ex_env ex_fs [''art'', ''b.png''] = Inr ex_transparent
   \<and> mode ex_transparent = ''RGBA''
   \<and> (\<exists>rest r. try_convert ex_env 85 True ex_fs [''art'', ''b.png''] [''art'', ''b.webp'']
          = (OpOpen [''art'', ''b.png''] # OpGetExtrema # rest, r))
   \<and> image_open ex_env ex_fs [''art'', ''c.png''] = Inr \<lparr>mode = ''RGB'', bands = [[7], [7], [7]]\<rparr>
   \<and> try_convert ex_env 85 True ex_fs [''art'', ''c.png''] [''art'', ''c2.webp''] =
       ([OpOpen [''art'', ''c.png''],
         OpSave [''art'', ''c2.webp''] \<lparr>mode = ''RGB'', bands = [[7], [7], [7]]\<rparr>
           \<lparr>kw_format = ''WEBP'', kw_lossless = None, kw_quality = Some 85\<rparr>],
        save ex_env ex_fs [''art'', ''c2.webp''] \<lparr>mode = ''RGB'', bands = [[7], [7], [7]]\<rparr>
          \<lparr>kw_format = ''WEBP'', kw_lossless = None, kw_quality = Some 85\<rparr>)"
proof -
  have b: "image_open ex_env ex_fs [''art'', ''b.png''] = Inr ex_transparent"
    by code_simp
  have mb: "mode ex_transparent = ''RGBA''" by (simp add: ex_transparent_def)
  have c: "image_open ex_env ex_fs [''art'', ''c.png'']
      = Inr \<lparr>mode = ''RGB'', bands = [[7], [7], [7]]\<rparr>"
    by code_simp
  from alpha_inspected_for_rgba_only [OF b, of 85 True "[''art'', ''b.webp'']"] mb
  have "\<exists>rest r. try_convert ex_env 85 True ex_fs [''art'', ''b.png''] [''art'', ''b.webp'']
          = (OpOpen [''art'', ''b.png''] # OpGetExtrema # rest, r)"
    by simp
  moreover from alpha_inspected_for_rgba_only [OF c, of 85 True "[''art'', ''c2.webp'']"]
  have "try_convert ex_env 85 True ex_fs [''art'', ''c.png''] [''art'', ''c2.webp''] =
       ([OpOpen [''art'', ''c.png''],
         OpSave [''art'', ''c2.webp''] \<lparr>mode = ''RGB'', bands = [[7], [7], [7]]\<rparr>
           \<lparr>kw_format = ''WEBP'', kw_lossless = None, kw_quality = Some 85\<rparr>],
        save ex_env ex_fs [''art'', ''c2.webp''] \<lparr>mode = ''RGB'', bands = [[7], [7], [7]]\<rparr>
          \<lparr>kw_format = ''WEBP'', kw_lossless = None, kw_quality = Some 85\<rparr>)"
    by simp
  ultimately show ?thesis using b mb c by simp
qed

text \<open>
  Claim C3: a decoded RGBA image whose smallest alpha sample is below 255 is saved as it
  is, with its alpha band; the lossless option is passed on, and the quality is passed
  only when lossless is false.
\<close>

theorem rgba_with_transparency_keeps_alpha:
  assumes "image_open ev fsys p = Inr img" and "mode img = ''RGBA''"
    and "alpha_min img = Inr a" and "a < 255"
  shows "try_convert ev q l fsys p w =
    ([OpOpen p, OpGetExtrema,
      OpSave w img \<lparr>kw_format = ''WEBP'', kw_lossless = Some l,
                    kw_quality = (if l then None else Some q)\<rparr>],
     save ev fsys w img \<lparr>kw_format = ''WEBP'', kw_lossless = Some l,
                         kw_quality = (if l then None else Some q)\<rparr>)"
  using assms by (simp add: try_convert_def choose_save_def)

theorem rgba_with_transparency_keeps_alpha_witness:
  "image_open ex_env ex_fs [''art'', ''b.png''] = Inr ex_transparent
   \<and> mode ex_transparent = ''RGBA'' \<and> alpha_min ex_transparent = Inr 0 \<and> (0::nat) < 255
   \<and> try_convert ex_env 85 True ex_fs [''art'', ''b.png''] [''art'', ''b.webp''] =
       ([OpOpen [''art'', ''b.png''], OpGetExtrema,
         OpSave [''art'', ''b.webp''] ex_transparent
           \<lparr>kw_format = ''WEBP'', kw_lossless = Some True, kw_quality = None\<rparr>],
        save ex_env ex_fs [''art'', ''b.webp''] ex_transparent
          \<lparr>kw_format = ''WEBP'', kw_lossless = Some True, kw_quality = None\<rparr>)
   \<and> try_convert ex_env 85 False ex_fs [''art'', ''b.png''] [''art'', ''b.webp''] =
       ([OpOpen [''art'', ''b.png''], OpGetExtrema,
         OpSave [''art'', ''b.webp''] ex_transparent
           \<lparr>kw_format = ''WEBP'', kw_lossless = Some False, kw_quality = Some 85\<rparr>],
        save ex_env ex_fs [''art'', ''b.webp''] ex_transparent
          \<lparr>kw_format = ''WEBP'', kw_lossless = Some False, kw_quality = Some 85\<rparr>)"
proof -
  have b: "image_open ex_env ex_fs [''art'', ''b.png''] = Inr ex_transparent"
    by code_simp
  have mb: "mode ex_transparent = ''RGBA''" by (simp add: ex_transparent_def)
  have am: "alpha_min ex_transparent = Inr 0" by code_simp
  have lt: "(0::nat) < 255" by simp
  from rgba_with_transparency_keeps_alpha [OF b mb am lt, of 85 True "[''art'', ''b.webp'']"]
    rgba_with_transparency_keeps_alpha [OF b mb am lt, of 85 False "[''art'', ''b.webp'']"]
  show ?thesis using b mb am by simp
qed

text \<open>
  Claim C4: a decoded RGBA image whose alpha samples are all fully opaque (the smallest
  is 255; the code takes this branch whenever it is not below 255) is converted to mode
  RGB, three bands, before it is saved, and the quality is passed whatever the lossless
  option says; the lossless option is not passed.
\<close>

theorem opaque_rgba_saved_as_rgb:
  assumes "image_open ev fsys p = Inr img" and "mode img = ''RGBA''"
    and "alpha_min img = Inr a" and "255 \<le> a"
  shows "try_convert ev q l fsys p w =
    ([OpOpen p, OpGetExtrema, OpConvert ''RGB'',
      OpSave w (convert_rgb img)
        \<lparr>kw_format = ''WEBP'', kw_lossless = None, kw_quality = Some q\<rparr>],
     save ev fsys w (convert_rgb img)
       \<lparr>kw_format = ''WEBP'', kw_lossless = None, kw_quality = Some q\<rparr>)
     \<and> mode (convert_rgb img) = ''RGB'' \<and> length (bands (convert_rgb img)) = 3
     \<and> bands (convert_rgb img) = butlast (take 4 (bands img))"
proof -
  from assms(3) have len: "3 < length (bands img)"
    by (auto simp: alpha_min_def getextrema_def Let_def split: if_splits)
  then have "length (bands (convert_rgb img)) = 3" by (simp add: convert_rgb_def)
  moreover have "mode (convert_rgb img) = ''RGB''" by (simp add: convert_rgb_def)
  moreover have "bands (convert_rgb img) = butlast (take 4 (bands img))"
    using len by (simp add: convert_rgb_def butlast_take)
  ultimately show ?thesis using assms by (simp add: try_convert_def choose_save_def)
qed

theorem opaque_rgba_saved_as_rgb_witness:
  "image_open ex_env ex_fs [''art'', ''a.png''] = Inr ex_opaque
   \<and> mode ex_opaque = ''RGBA'' \<and> alpha_min ex_opaque = Inr 255 \<and> (255::nat) \<le> 255
   \<and> try_convert ex_env 85 True ex_fs [''art'', ''a.png''] [''art'', ''a.webp''] =
       ([OpOpen [''art'', ''a.png''], OpGetExtrema, OpConvert ''RGB'',
         OpSave [''art'', ''a.webp''] (convert_rgb ex_opaque)
           \<lparr>kw_format = ''WEBP'', kw_lossless = None, kw_quality = Some 85\<rparr>],
        save ex_env ex_fs [''art'', ''a.webp''] (convert_rgb ex_opaque)
          \<lparr>kw_format = ''WEBP'', kw_lossless = None, kw_quality = Some 85\<rparr>)
   \<and> mode (convert_rgb ex_opaque) = ''RGB'' \<and> length (bands (convert_rgb ex_opaque)) = 3"
proof -
  have a: "image_open ex_env ex_fs [''art'', ''a.png''] = Inr ex_opaque"
    by code_simp
  have ma: "mode ex_opaque = ''RGBA''" by (simp add: ex_opaque_def)
  have am: "alpha_min ex_opaque = Inr 255" by code_simp
  have le: "(255::nat) \<le> 255" by simp
  from opaque_rgba_saved_as_rgb [OF a ma am le, of 85 True "[''art'', ''a.webp'']"]
  show ?thesis using a ma am le by blast
qed

subsection \<open>The summary\<close>

text \<open>
  Claim C5: in a run that printed a summary every file found got exactly one outcome
  line, in the order of the listing, each counter is the number of lines of its kind,
  and the total found is the sum of the converted, skipped and error counts.
\<close>

theorem count_conservation:
  assumes "convert_png_to_webp ev fsys src q l = Inr (Summary t c k e, s)"
  shows "t = c + k + e \<and> t = length (glob_png fsys src)
       \<and> map outcome_file (outcomes s) = glob_png fsys src
       \<and> c = length (filter is_converted (outcomes s))
       \<and> k = length (filter is_skipped (outcomes s))
       \<and> e = length (filter is_failed (outcomes s))"
  using assms
proof (cases rule: run_cases)
  case no_loop
  then show ?thesis by simp
next
  case loop
  from convert_loop_outcomes [OF loop(3)] obtain os where
    os: "outcomes s = os" "map outcome_file os = glob_png fsys src"
      "converted_count s = length (filter is_converted os)"
      "skipped_count s = length (filter is_skipped os)"
      "error_count s = length (filter is_failed os)"
    by (auto simp: loop_start_def)
  from os(2) have "length os = length (glob_png fsys src)" by (metis length_map)
  with os loop(4) outcome_partition [of os] show ?thesis by simp
qed

theorem count_conservation_witness:
  "convert_png_to_webp ex_env ex_fs [''art''] 85 False = Inr (Summary 4 2 1 1, ex_state_after)
   \<and> (4::nat) = 2 + 1 + 1 \<and> 4 = length (glob_png ex_fs [''art''])
   \<and> map outcome_file (outcomes ex_state_after) = glob_png ex_fs [''art'']"
proof -
  have run: "convert_png_to_webp ex_env ex_fs [''art''] 85 False
      = Inr (Summary 4 2 1 1, ex_state_after)"
    by code_simp
  from count_conservation [OF run] show ?thesis using run by simp
qed

subsection \<open>Failures\<close>









subsection \<open>Effects on the file system\<close>

text \<open>
  Claim C9: whether a run returns or is left by an exception, the file system it leaves
  is the one it found with new entries added at the end. There are at most as many new
  entries as PNG files found; each is at a path where nothing existed and is the
  \<^verbatim>\<open>.webp\<close> counterpart of a file found. Every path that existed keeps its node: no
  existing file is overwritten, no source file is changed or deleted.
\<close>

theorem side_effect_frame:
  "\<exists>added. files (run_state (convert_png_to_webp ev fsys src q l)) = fsys @ added
     \<and> length added \<le> length (glob_png fsys src)
     \<and> (\<forall>x \<in> fst ` set added. \<not> file_present fsys x
           \<and> (\<exists>p \<in> set (glob_png fsys src). with_suffix p ''.webp'' = Inr x))
     \<and> (\<forall>x n. map_of fsys x = Some n \<longrightarrow>
           map_of (files (run_state (convert_png_to_webp ev fsys src q l))) x = Some n)"
proof -
  let ?s = "run_state (convert_png_to_webp ev fsys src q l)"
  have "\<exists>added. files ?s = fsys @ added
     \<and> length added \<le> length (glob_png fsys src)
     \<and> (\<forall>x \<in> fst ` set added. \<not> file_present fsys x
           \<and> (\<exists>p \<in> set (glob_png fsys src). with_suffix p ''.webp'' = Inr x))"
  proof (cases "is_dir ev fsys src = Inr True \<and> glob_png fsys src \<noteq> []")
    case False
    from run_without_loop [OF False, of q l] show ?thesis by simp
  next
    case True
    then have "?s = loop_state (convert_loop ev q l (glob_png fsys src) (loop_start fsys src))"
      by (auto simp: run_on_dir run_state_def loop_state_def split: sum.splits)
    with convert_loop_files_any [of ev q l "glob_png fsys src" "loop_start fsys src"]
    show ?thesis by (auto simp: loop_start_def)
  qed
  then obtain added where a: "files ?s = fsys @ added"
     "length added \<le> length (glob_png fsys src)"
     "\<forall>x \<in> fst ` set added. \<not> file_present fsys x
           \<and> (\<exists>p \<in> set (glob_png fsys src). with_suffix p ''.webp'' = Inr x)"
    by blast
  have "\<forall>x n. map_of fsys x = Some n \<longrightarrow> map_of (files ?s) x = Some n"
    using a(1) by (simp add: map_of_append_left)
  with a show ?thesis by blast
qed

theorem side_effect_frame_witness:
  "run_state (convert_png_to_webp ex_env ex_fs [''art''] 85 False) = ex_state_after
   \<and> (\<exists>added. files ex_state_after = ex_fs @ added
         \<and> length added \<le> length (glob_png ex_fs [''art'']))
   \<and> map_of ex_fs [''art'', ''c.webp''] = Some (File [3, 7, 7, 7])
   \<and> map_of (files ex_state_after) [''art'', ''c.webp''] = Some (File [3, 7, 7, 7])
   \<and> run_state (convert_png_to_webp ex_env_refusing ex_fs [''art''] 85 False) = ex_state_raised
   \<and> (\<exists>added. files ex_state_raised = ex_fs @ added
         \<and> length added \<le> length (glob_png ex_fs [''art'']))
   \<and> map_of (files ex_state_raised) [''art'', ''c.webp''] = Some (File [3, 7, 7, 7])"
proof -
  have run: "run_state (convert_png_to_webp ex_env ex_fs [''art''] 85 False) = ex_state_after"
    by code_simp
  have raised: "run_state (convert_png_to_webp ex_env_refusing ex_fs [''art''] 85 False)
      = ex_state_raised"
    by code_simp
  have c: "map_of ex_fs [''art'', ''c.webp''] = Some (File [3, 7, 7, 7])" by code_simp
  from side_effect_frame [of ex_env ex_fs "[''art'']" 85 False] run
  obtain added where a: "files ex_state_after = ex_fs @ added"
      "length added \<le> length (glob_png ex_fs [''art''])"
      "\<forall>x n. map_of ex_fs x = Some n \<longrightarrow> map_of (files ex_state_after) x = Some n"
    by auto
  from side_effect_frame [of ex_env_refusing ex_fs "[''art'']" 85 False] raised
  obtain added' where b: "files ex_state_raised = ex_fs @ added'"
      "length added' \<le> length (glob_png ex_fs [''art''])"
      "\<forall>x n. map_of ex_fs x = Some n \<longrightarrow> map_of (files ex_state_raised) x = Some n"
    by auto
  from a(3) c have ca: "map_of (files ex_state_after) [''art'', ''c.webp''] = Some (File [3, 7, 7, 7])"
    by blast
  from b(3) c have cb: "map_of (files ex_state_raised) [''art'', ''c.webp''] = Some (File [3, 7, 7, 7])"
    by blast
  from run raised a(1,2) b(1,2) c ca cb show ?thesis by blast
qed

subsection \<open>Order of the checks\<close>

text \<open>
  Claim C10: in every iteration, when the existence check finds the WebP counterpart of
  the file, it is the only call made and the file is recorded as Skipped. So in a run
  that printed a summary, a PNG file whose counterpart existed from the start is never
  opened, nothing is saved to its counterpart, and its outcome is Skipped and neither
  Failed nor Converted.
\<close>

theorem skipped_file_is_never_opened:
  assumes "convert_png_to_webp ev fsys src q l = Inr (Summary t c k e, s)"
    and "p \<in> set (glob_png fsys src)"
    and "with_suffix p ''.webp'' = Inr w" and "file_present fsys w"
  shows "OpOpen p \<notin> set (calls s) \<and> (\<forall>img kw. OpSave w img kw \<notin> set (calls s))
       \<and> Skipped p w \<in> set (outcomes s)
       \<and> (\<forall>ex. Failed p ex \<notin> set (outcomes s))
       \<and> (\<forall>w'. Converted p w' \<notin> set (outcomes s))
       \<and> (\<forall>s0. path_exists ev (files s0) w = Inr True \<longrightarrow>
             convert_one ev q l s0 p =
               Inr (s0\<lparr>calls := calls s0 @ [OpExists w],
                      outcomes := outcomes s0 @ [Skipped p w],
                      skipped_count := skipped_count s0 + 1\<rparr>))"
  using assms(1)
proof (cases rule: run_cases)
  case no_loop
  then show ?thesis by simp
next
  case loop
  have we: "webp_exists fsys p" using assms(3,4) by (simp add: webp_exists_def)
  from convert_loop_trace [OF loop(3)] obtain cs os where tr:
      "calls s = [OpExists src, OpIsDir src, OpGlob src] @ cs" "outcomes s = os"
      "\<forall>p. OpOpen p \<in> set cs \<longrightarrow> \<not> webp_exists fsys p"
      "\<forall>w img kw. OpSave w img kw \<in> set cs \<longrightarrow> \<not> file_present fsys w"
      "\<forall>p w. Converted p w \<in> set os \<longrightarrow> \<not> webp_exists fsys p"
      "\<forall>p e. Failed p e \<in> set os \<longrightarrow> \<not> webp_exists fsys p"
      "\<forall>p \<in> set (glob_png fsys src). \<forall>w. with_suffix p ''.webp'' = Inr w \<longrightarrow>
         file_present fsys w \<longrightarrow> Skipped p w \<in> set os"
    by (auto simp: loop_start_def)
  have "OpOpen p \<notin> set (calls s)" using tr(1,3) we by auto
  moreover have "\<forall>img kw. OpSave w img kw \<notin> set (calls s)" using tr(1,4) assms(4) by auto
  moreover have "Skipped p w \<in> set (outcomes s)" using tr(2,7) assms(2,3,4) by blast
  moreover have "\<forall>ex. Failed p ex \<notin> set (outcomes s)" using tr(2,6) we by blast
  moreover have "\<forall>w'. Converted p w' \<notin> set (outcomes s)" using tr(2,5) we by blast
  moreover have "\<forall>s0. path_exists ev (files s0) w = Inr True \<longrightarrow>
             convert_one ev q l s0 p =
               Inr (s0\<lparr>calls := calls s0 @ [OpExists w],
                      outcomes := outcomes s0 @ [Skipped p w],
                      skipped_count := skipped_count s0 + 1\<rparr>)"
    using assms(3) by (simp add: convert_one_skip)
  ultimately show ?thesis by blast
qed

theorem skipped_file_is_never_opened_witness:
  "convert_png_to_webp ex_env ex_fs [''art''] 85 False = Inr (Summary 4 2 1 1, ex_state_after)
   \<and> [''art'', ''c.png''] \<in> set (glob_png ex_fs [''art''])
   \<and> with_suffix [''art'', ''c.png''] ''.webp'' = Inr [''art'', ''c.webp'']
   \<and> file_present ex_fs [''art'', ''c.webp'']
   \<and> OpOpen [''art'', ''c.png''] \<notin> set (calls ex_state_after)
   \<and> Skipped [''art'', ''c.png''] [''art'', ''c.webp''] \<in> set (outcomes ex_state_after)"
proof -
  have run: "convert_png_to_webp ex_env ex_fs [''art''] 85 False
      = Inr (Summary 4 2 1 1, ex_state_after)"
    by code_simp
  have g: "[''art'', ''c.png''] \<in> set (glob_png ex_fs [''art''])" by code_simp
  have w: "with_suffix [''art'', ''c.png''] ''.webp'' = Inr [''art'', ''c.webp'']" by code_simp
  have x: "file_present ex_fs [''art'', ''c.webp'']" by code_simp
  from skipped_file_is_never_opened [OF run g w x] show ?thesis using run g w x by blast
qed

end
